theory Spec2Isabelle
  imports Complex_Main "HOL-Library.Sublist"
begin

section \<open>Python strings\<close>

text \<open>
  A Python \<open>str\<close> is modelled as a \<open>string\<close>; a character stands for a code point
  below 256. The functions of this section are the built-in string operations that
  the program calls.
\<close>

text \<open>\<open>str.isspace\<close> on one character, for the code points below 256.\<close>

definition is_space :: "char \<Rightarrow> bool" where
  "is_space c = (c \<in> set [CHR 0x09, CHR 0x0A, CHR 0x0B, CHR 0x0C, CHR 0x0D,
                           CHR 0x1C, CHR 0x1D, CHR 0x1E, CHR 0x1F, CHR 0x20,
                           CHR 0x85, CHR 0xA0])"

text \<open>\<open>s.strip()\<close>: whitespace removed at both ends.\<close>

definition strip :: "string \<Rightarrow> string" where
  "strip s = rev (dropWhile is_space (rev (dropWhile is_space s)))"

text \<open>\<open>sub in s\<close>: \<open>sub\<close> occurs in \<open>s\<close> as a contiguous substring.\<close>

fun contains :: "string \<Rightarrow> string \<Rightarrow> bool" where
  "contains sub [] = (sub = [])"
| "contains sub (c # cs) = (prefix sub (c # cs) \<or> contains sub cs)"

text \<open>
  \<open>s.split(sep)\<close> for a separator that is not empty: the pieces of \<open>s\<close> between the
  occurrences of \<open>sep\<close>, found from left to right without overlap. \<open>acc\<close> holds the
  current piece, reversed. (Python raises \<open>ValueError\<close> for an empty separator; the
  program only splits at the literals \<open>'\n'\<close>, \<open>"-->"\<close> and \<open>"["\<close>.)
\<close>

fun split_aux :: "string \<Rightarrow> string \<Rightarrow> string \<Rightarrow> string list" where
  "split_aux sep acc [] = [rev acc]"
| "split_aux sep acc (c # cs) =
     (if prefix sep (c # cs) then rev acc # split_aux sep [] (drop (length sep - 1) cs)
      else split_aux sep (c # acc) cs)"

definition split_str :: "string \<Rightarrow> string \<Rightarrow> string list" where
  "split_str sep s = split_aux sep [] s"

section \<open>The generative AI service\<close>

text \<open>
  An exception, with the text that \<open>str(e)\<close> gives. \<open>ServiceError\<close> is any exception of
  the external service; \<open>ValueError\<close> and \<open>OverflowError\<close> are raised by \<open>int\<close> on a float
  that is not finite; \<open>IOError\<close> is the error of the specification for a file or video
  operation that failed.
\<close>

datatype error =
  ServiceError string | IOError string | ValueError string | OverflowError string

fun str_error :: "error \<Rightarrow> string" where
  "str_error (ServiceError m) = m"
| "str_error (IOError m) = m"
| "str_error (ValueError m) = m"
| "str_error (OverflowError m) = m"

text \<open>
  The \<open>GenAI\<close> object: each method either returns its text or raises. The program
  builds it from the API key of the environment; here it is a parameter.
  \<open>generate_text\<close> takes the prompt and, if given, the instructions; a chat message is a
  pair of its role and its content.
\<close>

record genai =
  generate_text :: "string \<Rightarrow> string option \<Rightarrow> error + string"
  generate_image_description :: "string \<Rightarrow> string \<Rightarrow> error + string"
  generate_video_description :: "string \<Rightarrow> string \<Rightarrow> error + string"
  generate_image :: "string \<Rightarrow> error + string \<times> string"
  generate_chat_response :: "(string \<times> string) list \<Rightarrow> string \<Rightarrow> string \<Rightarrow> error + string"

text \<open>
  Two services to run the program on: one answers every request with what it was
  given (the prompt, or the path of the video), the other one fails every request.
\<close>

definition echo_service :: genai where
  "echo_service =
     \<lparr>generate_text = (\<lambda>prompt instructions. Inr prompt),
      generate_image_description = (\<lambda>img prompt. Inr prompt),
      generate_video_description = (\<lambda>video prompt. Inr video),
      generate_image = (\<lambda>prompt. Inr (''url'', prompt)),
      generate_chat_response = (\<lambda>history message instructions. Inr message)\<rparr>"


section \<open>Prompt builders of \<open>Jiu-Jitsu functions.py\<close>\<close>

definition match_type :: "bool \<Rightarrow> string" where
  "match_type isMMA = (if isMMA then ''MMA'' else ''Jiu-jitsu'')"

text \<open>The prompt that \<open>generate_grappling_plan\<close> assembles before its call of the service.\<close>

definition grappling_plan_prompt :: "string \<Rightarrow> bool \<Rightarrow> string \<Rightarrow> string" where
  "grappling_plan_prompt player_variable isMMA keywords =
     (let prompt = ''the image is a still frame from a grappling match. The match has ''
                     @ match_type isMMA @ '' rules. '';
          prompt = prompt @ ''I want you to analyze: '' @ player_variable
                     @ '', and provide three options for the next immediate steps '';
          prompt = prompt
                     @ ''towards grappling moves that would work best for them given their current position. '';
          prompt = prompt
                     @ ''I want these steps to be listed in quick bullet format like ex: \"1) <<step>> : towards <<move>>, 2) ...\". '';
          prompt = prompt
                     @ ''Base the recommendations on historical MMA and Jiu-jitsu match performance. ''
      in if keywords \<noteq> []
         then prompt @ ''I want you to also take special note of the following keywords for your image and recommendation analysis: ''
                @ keywords
         else prompt)"


text \<open>The prompt of \<open>analyse_grappling_match\<close>; the time range is not used by this version.\<close>

definition analyse_match_prompt :: "string \<Rightarrow> bool \<Rightarrow> string \<Rightarrow> string" where
  "analyse_match_prompt player_variable isMMA keywords =
     (let prompt = ''these images are frames from a grappling match. The match has ''
                     @ match_type isMMA @ '' rules. '';
          prompt = prompt @ ''I want you to analyze: '' @ player_variable
                     @ '', and provide an analysis of what went right or wrong '';
          prompt = prompt @ ''during the match, along with some recommendations for the ''
                     @ player_variable @ '' in their next match. '';
          prompt = prompt @ ''I want these recommendations to be listed in a quick summary format. '';
          prompt = prompt
                     @ ''Base the recommendations on the athlete's body type, jiu-jitsu guard situation, and historical '';
          prompt = prompt @ ''MMA and Jiu-jitsu match performance. ''
      in if keywords \<noteq> []
         then prompt @ ''I want you to also take special note of the following keywords for your analysis: ''
                @ keywords
         else prompt)"

definition analyse_grappling_match ::
  "genai \<Rightarrow> string \<Rightarrow> string \<Rightarrow> bool \<Rightarrow> string \<Rightarrow> error + string" where
  "analyse_grappling_match ai video player_variable isMMA keywords =
     generate_video_description ai video (analyse_match_prompt player_variable isMMA keywords)"

definition flow_chart_prompt :: "string \<Rightarrow> string \<Rightarrow> bool \<Rightarrow> string \<Rightarrow> string" where
  "flow_chart_prompt measurables position_variable isMMA favorite_ideas =
     (let prompt = ''I want you to generate a Mermaid based radial visual flow chart of jiu-jitsu moves that will have the greatest likelihood '';
          prompt = prompt @ ''of success for an athlete with the following measurables: ''
                     @ measurables @ ''. '';
          prompt = prompt @ ''I want this chart to focus on '' @ position_variable
                     @ '' under the '' @ match_type isMMA @ '' ruleset'';
          prompt = (if favorite_ideas \<noteq> []
                    then prompt @ '', and take into account that the athlete has the following ideas: ''
                           @ favorite_ideas
                    else prompt)
      in prompt @ '' of the athlete. Could you label the flow arrows in the diagram using a description of the primary movement required to get to that bubble. Only return the mermaid object, and not any shoulder text whatsoever'')"

definition generate_flow_chart ::
  "genai \<Rightarrow> string \<Rightarrow> string \<Rightarrow> bool \<Rightarrow> string \<Rightarrow> error + string" where
  "generate_flow_chart ai measurables position_variable isMMA favorite_ideas =
     generate_text ai (flow_chart_prompt measurables position_variable isMMA favorite_ideas)
       None"



section \<open>Prompt builders of \<open>app.py\<close>\<close>

text \<open>
  \<open>app.py\<close> defines \<open>generate_grappling_plan\<close>, \<open>analyze_grappling_match\<close> and
  \<open>generate_flow_chart\<close> a second time; their prompts carry the prefix \<open>app\<close> here.
\<close>

definition app_grappling_plan_prompt :: "string \<Rightarrow> bool \<Rightarrow> string \<Rightarrow> string" where
  "app_grappling_plan_prompt player_variable isMMA keywords =
     (let prompt = ''The image is a still frame from a grappling match. The match has ''
                     @ match_type isMMA @ '' rules. '';
          prompt = prompt @ ''I want you to analyze: '' @ player_variable
                     @ '', and provide three options for the next immediate steps '';
          prompt = prompt
                     @ ''towards grappling moves that would work best for them given their current position. '';
          prompt = prompt
                     @ ''I want these steps to be listed in quick bullet format like ex: \"1) <<step>> : towards <<move>>, 2) ...\". '';
          prompt = prompt
                     @ ''Base the recommendations on historical MMA and Jiu-jitsu match performance. ''
      in if keywords \<noteq> []
         then prompt @ ''I want you to also take special note of the following keywords for your image and recommendation analysis: ''
                @ keywords
         else prompt)"

definition app_generate_grappling_plan ::
  "genai \<Rightarrow> string \<Rightarrow> string \<Rightarrow> bool \<Rightarrow> string \<Rightarrow> error + string" where
  "app_generate_grappling_plan ai image_path player_variable isMMA keywords =
     generate_image_description ai image_path
       (app_grappling_plan_prompt player_variable isMMA keywords)"

definition analyze_match_prompt :: "string \<Rightarrow> bool \<Rightarrow> string \<Rightarrow> string" where
  "analyze_match_prompt player_variable isMMA keywords =
     (let prompt = ''These images are frames from a grappling match. The match has ''
                     @ match_type isMMA @ '' rules. '';
          prompt = prompt @ ''I want you to analyze: '' @ player_variable
                     @ '', and provide an analysis of what went right or wrong '';
          prompt = prompt @ ''during the match, along with some recommendations for the ''
                     @ player_variable @ '' in their next match. '';
          prompt = prompt @ ''I want these recommendations to be listed in a quick summary format. '';
          prompt = prompt
                     @ ''Base the recommendations on the athlete's body type, jiu-jitsu guard situation, and historical '';
          prompt = prompt @ ''MMA and Jiu-jitsu match performance. ''
      in if keywords \<noteq> []
         then prompt @ ''I want you to also take special note of the following keywords for your analysis: ''
                @ keywords
         else prompt)"

definition app_flow_chart_prompt :: "string \<Rightarrow> string \<Rightarrow> bool \<Rightarrow> string \<Rightarrow> string" where
  "app_flow_chart_prompt measurables position_variable isMMA favorite_ideas =
     (let prompt = ''I want you to generate a visual flow chart of jiu-jitsu moves that will have the greatest likelihood '';
          prompt = prompt @ ''of success for an athlete with the following measurables: ''
                     @ measurables @ ''. '';
          prompt = prompt @ ''I want this chart to focus on '' @ position_variable
                     @ '' position under the '' @ match_type isMMA @ '' ruleset''
      in if favorite_ideas \<noteq> []
         then prompt @ '', and take into account that the athlete has the following ideas: ''
                @ favorite_ideas
         else prompt)"

definition app_generate_flow_chart ::
  "genai \<Rightarrow> string \<Rightarrow> string \<Rightarrow> bool \<Rightarrow> string \<Rightarrow> error + string \<times> string" where
  "app_generate_flow_chart ai measurables position_variable isMMA favorite_ideas =
     generate_image ai (app_flow_chart_prompt measurables position_variable isMMA favorite_ideas)"

section \<open>Navigation: \<open>next_move\<close>\<close>

text \<open>
  The loop of \<open>next_move\<close> over the lines of the chart. The result is \<open>new_position\<close>
  when the loop ends: \<open>None\<close> as long as no line has matched, and the label taken from
  the first line that holds both the move text and an arrow (the loop breaks there).
\<close>

fun find_position :: "string \<Rightarrow> string list \<Rightarrow> string option" where
  "find_position move_text [] = None"
| "find_position move_text (line # rest) =
     (if contains move_text line \<and> contains ''-->'' line then
        (let parts = split_str ''-->'' line in
         if length parts \<ge> 2 then
           (let target = strip (parts ! 1) in
            if contains ''['' target then Some (strip (hd (split_str ''['' target)))
            else Some target)
         else find_position move_text rest)
      else find_position move_text rest)"

definition chart_lines :: "string \<Rightarrow> string list" where
  "chart_lines flow_chart = split_str ''\<newline>'' (strip flow_chart)"

definition resolve_next_node :: "string \<Rightarrow> string \<Rightarrow> string option" where
  "resolve_next_node flow_chart move_text = find_position move_text (chart_lines flow_chart)"

text \<open>
  \<open>not new_position\<close> holds for \<open>None\<close> and for the empty string: in both cases the
  chart comes back as it was, and the service is not called.
\<close>

definition next_move ::
  "genai \<Rightarrow> string \<Rightarrow> string \<Rightarrow> string \<Rightarrow> bool \<Rightarrow> string \<Rightarrow> error + string" where
  "next_move ai flow_chart move_text measurables isMMA favorite_ideas =
     (case resolve_next_node flow_chart move_text of
        None \<Rightarrow> Inr flow_chart
      | Some new_position \<Rightarrow>
          if new_position = [] then Inr flow_chart
          else generate_flow_chart ai measurables new_position isMMA favorite_ideas)"

subsection \<open>What the specification says of navigation\<close>

text \<open>
  The text of \<open>s\<close> before the first occurrence of \<open>sep\<close> (all of \<open>s\<close> when there is
  none), and the text after that occurrence (nothing when there is none).
\<close>

fun text_before :: "string \<Rightarrow> string \<Rightarrow> string" where
  "text_before sep [] = []"
| "text_before sep (c # cs) = (if prefix sep (c # cs) then [] else c # text_before sep cs)"

fun text_after :: "string \<Rightarrow> string \<Rightarrow> string" where
  "text_after sep [] = []"
| "text_after sep (c # cs) =
     (if prefix sep (c # cs) then drop (length sep) (c # cs) else text_after sep cs)"

text \<open>
  An edge statement is a line that holds an arrow; it matches a move when the move
  text occurs anywhere in the line.
\<close>

definition edge_match :: "string \<Rightarrow> string \<Rightarrow> bool" where
  "edge_match move_text line = (contains move_text line \<and> contains ''-->'' line)"

text \<open>
  The target text of an edge statement: what follows the first arrow, up to a further
  arrow when the line chains several edges. The label is the target text up to its first
  bracket, or all of it when it has none, without the whitespace around it.
\<close>

definition edge_target :: "string \<Rightarrow> string" where
  "edge_target line = text_before ''-->'' (text_after ''-->'' line)"

definition target_label :: "string \<Rightarrow> string" where
  "target_label line =
     (let target = strip (edge_target line)
      in if CHR ''['' \<in> set target then strip (takeWhile (\<lambda>c. c \<noteq> CHR ''['') target)
         else target)"

section \<open>Video segment extraction (\<open>app.py\<close>)\<close>

subsection \<open>Python floats\<close>

text \<open>
  A float is an IEEE 754 double: a rational number, an infinity or NaN. The product of
  two finite floats is the exact product rounded to the nearest double, a tie going to
  the double with the even mantissa, and an infinity when the rounded value is out of
  range. (The sign of a zero is not kept; \<open>int\<close> does not see it.)
\<close>

datatype pyfloat = Fin rat | PosInf | NegInf | NaN

text \<open>The integer nearest to \<open>q\<close>, the even one of two that are equally near.\<close>

definition round_half_even :: "rat \<Rightarrow> int" where
  "round_half_even q =
     (let n = \<lfloor>q\<rfloor>; d = q - of_int n
      in if d < 1 / 2 then n else if 1 / 2 < d then n + 1 else if even n then n else n + 1)"

text \<open>
  The doubles are the multiples \<open>m * 2^j / 2^1074\<close> with a mantissa \<open>m\<close> of at most 53
  bits, below \<open>2^1024\<close> in size. For \<open>A = x * 2^1074\<close>, \<open>grid_exp n A\<close> is the largest
  \<open>j\<close> up to \<open>n\<close> with \<open>2^(j+52) \<le> A\<close>, and \<open>0\<close> if there is none: the doubles around \<open>x\<close>
  are \<open>2^j / 2^1074\<close> apart.
\<close>

definition subnormal_scale :: rat where
  "subnormal_scale = 2 ^ 1074"

definition overflow_bound :: rat where
  "overflow_bound = 2 ^ 1024"

fun grid_exp :: "nat \<Rightarrow> rat \<Rightarrow> nat" where
  "grid_exp 0 A = 0"
| "grid_exp (Suc n) A = (if 2 ^ (Suc n + 52) \<le> A then Suc n else grid_exp n A)"

text \<open>The value of 53 bits nearest to \<open>x \<ge> 0\<close>, before the check of the range.\<close>

definition nearest_double :: "rat \<Rightarrow> rat" where
  "nearest_double x =
     (let A = x * subnormal_scale; j = grid_exp 2045 A; m = round_half_even (A / 2 ^ j)
      in of_int m * 2 ^ j / subnormal_scale)"

text \<open>Rounding of an exact result to a float.\<close>

definition fround :: "rat \<Rightarrow> pyfloat" where
  "fround x =
     (let r = nearest_double \<bar>x\<bar>
      in if overflow_bound \<le> r then (if 0 < x then PosInf else NegInf)
         else Fin (if x < 0 then - r else r))"

fun inf_times :: "pyfloat \<Rightarrow> rat \<Rightarrow> pyfloat" where
  "inf_times x r =
     (if r = 0 then NaN else if 0 < r then x else if x = PosInf then NegInf else PosInf)"

text \<open>\<open>x * y\<close> on floats.\<close>

fun fmul :: "pyfloat \<Rightarrow> pyfloat \<Rightarrow> pyfloat" where
  "fmul (Fin a) (Fin b) = fround (a * b)"
| "fmul NaN y = NaN"
| "fmul x NaN = NaN"
| "fmul (Fin a) y = inf_times y a"
| "fmul x (Fin b) = inf_times x b"
| "fmul x y = (if x = y then PosInf else NegInf)"

text \<open>The rational numbers that are doubles.\<close>

definition is_double :: "rat \<Rightarrow> bool" where
  "is_double d =
     (\<exists>m j. \<bar>d\<bar> = of_nat m * 2 ^ j / subnormal_scale \<and> m \<le> 2 ^ 53 \<and> \<bar>d\<bar> < overflow_bound)"

text \<open>\<open>int(x)\<close> cuts a finite float towards zero and raises on the other floats.\<close>

fun py_int :: "pyfloat \<Rightarrow> error + int" where
  "py_int (Fin r) = Inr (if 0 \<le> r then \<lfloor>r\<rfloor> else \<lceil>r\<rceil>)"
| "py_int NaN = Inl (ValueError ''cannot convert float NaN to integer'')"
| "py_int x = Inl (OverflowError ''cannot convert float infinity to integer'')"

subsection \<open>The video library\<close>

text \<open>
  The part of the video library that the extractor uses, after the specification's
  "frame-accurate read/write of video files": a video file is a list of frames with
  its frame rate and frame size; a capture reads the frames one by one from a position
  that can be set; a writer collects the frames written to it. A path with no video
  behind it gives a capture that is not opened.
\<close>

type_synonym frame = nat

record video =
  v_frames :: "frame list"
  v_fps :: pyfloat
  v_width :: nat
  v_height :: nat

type_synonym files = "string \<Rightarrow> video option"

record video_capture =
  cap_source :: "video option"
  cap_pos :: int
  cap_released :: bool

definition VideoCapture :: "files \<Rightarrow> string \<Rightarrow> video_capture" where
  "VideoCapture fs path = \<lparr>cap_source = fs path, cap_pos = 0, cap_released = False\<rparr>"

definition isOpened :: "video_capture \<Rightarrow> bool" where
  "isOpened c = (cap_source c \<noteq> None \<and> \<not> cap_released c)"

definition cap_get_fps :: "video_capture \<Rightarrow> pyfloat" where
  "cap_get_fps c = (case cap_source c of None \<Rightarrow> Fin 0 | Some v \<Rightarrow> v_fps v)"

definition cap_get_width :: "video_capture \<Rightarrow> pyfloat" where
  "cap_get_width c = (case cap_source c of None \<Rightarrow> Fin 0 | Some v \<Rightarrow> Fin (of_nat (v_width v)))"

definition cap_get_height :: "video_capture \<Rightarrow> pyfloat" where
  "cap_get_height c = (case cap_source c of None \<Rightarrow> Fin 0 | Some v \<Rightarrow> Fin (of_nat (v_height v)))"

definition cap_set_pos :: "video_capture \<Rightarrow> int \<Rightarrow> video_capture" where
  "cap_set_pos c n = c\<lparr>cap_pos := n\<rparr>"

text \<open>\<open>cap.read()\<close>: the frame at the position, if there is one, and the capture after it.\<close>

definition cap_read :: "video_capture \<Rightarrow> frame option \<times> video_capture" where
  "cap_read c =
     (case cap_source c of
        None \<Rightarrow> (None, c)
      | Some v \<Rightarrow>
          if 0 \<le> cap_pos c \<and> cap_pos c < int (length (v_frames v)) \<and> \<not> cap_released c
          then (Some (v_frames v ! nat (cap_pos c)), c\<lparr>cap_pos := cap_pos c + 1\<rparr>)
          else (None, c))"

definition cap_release :: "video_capture \<Rightarrow> video_capture" where
  "cap_release c = c\<lparr>cap_released := True\<rparr>"

record video_writer =
  w_path :: string
  w_fourcc :: string
  w_fps :: pyfloat
  w_size :: "int \<times> int"
  w_frames :: "frame list"
  w_released :: bool

definition VideoWriter :: "string \<Rightarrow> string \<Rightarrow> pyfloat \<Rightarrow> int \<times> int \<Rightarrow> video_writer" where
  "VideoWriter path fourcc fps frame_size =
     \<lparr>w_path = path, w_fourcc = fourcc, w_fps = fps, w_size = frame_size, w_frames = [],
      w_released = False\<rparr>"

definition writer_write :: "video_writer \<Rightarrow> frame \<Rightarrow> video_writer" where
  "writer_write w f = w\<lparr>w_frames := w_frames w @ [f]\<rparr>"

definition writer_release :: "video_writer \<Rightarrow> video_writer" where
  "writer_release w = w\<lparr>w_released := True\<rparr>"

text \<open>The video file that a writer leaves at its path.\<close>

definition written_video :: "video_writer \<Rightarrow> video" where
  "written_video w =
     \<lparr>v_frames = w_frames w, v_fps = w_fps w, v_width = nat (fst (w_size w)),
      v_height = nat (snd (w_size w))\<rparr>"

subsection \<open>\<open>_extract_video_segment\<close>\<close>

text \<open>
  The loop of the extractor: while \<open>current_frame <= end_frame\<close>, read a frame, stop
  when there is none, write it and count.
\<close>

function copy_frames ::
  "int \<Rightarrow> int \<Rightarrow> video_capture \<Rightarrow> video_writer \<Rightarrow> video_capture \<times> video_writer" where
  "copy_frames current_frame end_frame c w =
     (if current_frame \<le> end_frame then
        (case cap_read c of
           (None, c') \<Rightarrow> (c', w)
         | (Some frame, c') \<Rightarrow> copy_frames (current_frame + 1) end_frame c' (writer_write w frame))
      else (c, w))"
  by pat_completeness auto
termination
  by (relation "measure (\<lambda>(current_frame, end_frame, c, w). nat (end_frame + 1 - current_frame))")
    auto

text \<open>
  The body of the \<open>try\<close> block: the value returned or the exception raised, with the
  capture and the writer (if one was made) as they are at that point.
\<close>

definition extract_body ::
  "files \<Rightarrow> string \<Rightarrow> string \<Rightarrow> pyfloat \<Rightarrow> pyfloat
     \<Rightarrow> (error + bool) \<times> video_capture \<times> video_writer option" where
  "extract_body fs input_path output_path start_time end_time =
     (let c = VideoCapture fs input_path in
      if \<not> isOpened c then (Inr False, c, None)
      else
        let fps = cap_get_fps c in
        case py_int (cap_get_width c) of
          Inl e \<Rightarrow> (Inl e, c, None)
        | Inr width \<Rightarrow>
        case py_int (cap_get_height c) of
          Inl e \<Rightarrow> (Inl e, c, None)
        | Inr height \<Rightarrow>
        let fourcc = ''mp4v'';
            w = VideoWriter output_path fourcc fps (width, height) in
        case py_int (fmul start_time fps) of
          Inl e \<Rightarrow> (Inl e, c, Some w)
        | Inr start_frame \<Rightarrow>
        case py_int (fmul end_time fps) of
          Inl e \<Rightarrow> (Inl e, c, Some w)
        | Inr end_frame \<Rightarrow>
        let c = cap_set_pos c start_frame;
            (c, w) = copy_frames start_frame end_frame c w;
            c = cap_release c;
            w = writer_release w
        in (Inr True, c, Some w))"

text \<open>
  The extractor: the \<open>except\<close> clause prints the exception and returns \<open>False\<close>. The
  result holds the value returned, the capture and the writer at the end, and the
  lines printed.
\<close>

record extraction =
  ex_ok :: bool
  ex_cap :: video_capture
  ex_out :: "video_writer option"
  ex_printed :: "string list"

definition extract_video_segment ::
  "files \<Rightarrow> string \<Rightarrow> string \<Rightarrow> pyfloat \<Rightarrow> pyfloat \<Rightarrow> extraction" where
  "extract_video_segment fs input_path output_path start_time end_time =
     (case extract_body fs input_path output_path start_time end_time of
        (Inl e, c, w) \<Rightarrow>
          \<lparr>ex_ok = False, ex_cap = c, ex_out = w,
           ex_printed = [''Error extracting video segment: '' @ str_error e]\<rparr>
      | (Inr b, c, w) \<Rightarrow> \<lparr>ex_ok = b, ex_cap = c, ex_out = w, ex_printed = []\<rparr>)"

text \<open>The files after an extraction: the writer, once made, has put a file at its path.\<close>

definition files_after :: "files \<Rightarrow> extraction \<Rightarrow> files" where
  "files_after fs r =
     (case ex_out r of None \<Rightarrow> fs | Some w \<Rightarrow> fs(w_path w \<mapsto> written_video w))"

subsection \<open>\<open>analyze_grappling_match\<close>\<close>

text \<open>\<open>s.rfind(c)\<close>: the last index of \<open>c\<close> in \<open>s\<close>, or \<open>-1\<close>.\<close>

fun rfind :: "char \<Rightarrow> string \<Rightarrow> int" where
  "rfind c [] = -1"
| "rfind c (x # xs) = (let r = rfind c xs in if r \<ge> 0 then r + 1 else if x = c then 0 else -1)"

text \<open>
  \<open>os.path.splitext\<close> (POSIX): the extension starts at the last dot of the last path
  component, unless only dots stand before it there.
\<close>

definition splitext :: "string \<Rightarrow> string \<times> string" where
  "splitext p =
     (let sepIndex = rfind CHR ''/'' p; dotIndex = rfind CHR ''.'' p in
      if dotIndex > sepIndex
         \<and> list_ex (\<lambda>ch. ch \<noteq> CHR ''.'')
             (take (nat (dotIndex - (sepIndex + 1))) (drop (nat (sepIndex + 1)) p))
      then (take (nat dotIndex) p, drop (nat dotIndex) p)
      else (p, []))"

text \<open>
  The match analysis: the answer of the service (or its exception) and the files
  afterwards. The value that the extractor returns is not looked at.
\<close>

definition analyze_grappling_match ::
  "genai \<Rightarrow> files \<Rightarrow> string \<Rightarrow> string \<Rightarrow> bool \<Rightarrow> string \<Rightarrow> pyfloat option \<Rightarrow> pyfloat option
     \<Rightarrow> (error + string) \<times> files" where
  "analyze_grappling_match ai fs video_path player_variable isMMA keywords start_time end_time =
     (let (video_to_analyze, fs) =
            (case (start_time, end_time) of
               (Some s, Some e) \<Rightarrow>
                 let subset_path = fst (splitext video_path) @ ''_subset''
                                     @ snd (splitext video_path);
                     r = extract_video_segment fs video_path subset_path s e
                 in (subset_path, files_after fs r)
             | _ \<Rightarrow> (video_path, fs));
          prompt = analyze_match_prompt player_variable isMMA keywords
      in case generate_video_description ai video_to_analyze prompt of
           Inl e \<Rightarrow> (Inl e, fs)
         | Inr response \<Rightarrow>
             (Inr response,
              if video_to_analyze \<noteq> video_path \<and> fs video_to_analyze \<noteq> None
              then fs(video_to_analyze := None) else fs))"

section \<open>The button handlers of \<open>app.py\<close>\<close>






section \<open>The screens of \<open>app.py\<close>\<close>



datatype flow_press = NoPress | PressGenerate | PressFlow













section \<open>Sample data\<close>

text \<open>A video of ten frames at five frames per second, and the files that hold it.\<close>

definition sample_video :: video where
  "sample_video =
     \<lparr>v_frames = [10, 11, 12, 13, 14, 15, 16, 17, 18, 19], v_fps = Fin 5,
      v_width = 4, v_height = 3\<rparr>"

definition sample_files :: files where
  "sample_files = Map.empty(''match.mp4'' \<mapsto> sample_video)"

text \<open>
  The double that the literal \<open>0.6\<close> denotes, and the double \<open>2.0 ** 1023\<close>.
\<close>

definition point_six :: rat where
  "point_six = 5404319552844595 / 9007199254740992"

definition huge_time :: rat where
  "huge_time = 2 ^ 1023"






section \<open>Properties of the string operations\<close>

lemma contains_iff_sublist: "contains sub s \<longleftrightarrow> sublist sub s"
  by (induction s) (auto simp: sublist_Cons_right)

lemma contains_iff: "contains sub s \<longleftrightarrow> (\<exists>ps ss. s = ps @ sub @ ss)"
  by (simp add: contains_iff_sublist sublist_def)

lemma text_before_none: "\<not> contains sep s \<Longrightarrow> text_before sep s = s"
  by (induction s) auto

lemma text_split: "contains sep s \<Longrightarrow> s = text_before sep s @ sep @ text_after sep s"
  by (induction s) (auto simp: prefix_def)

text \<open>One step of \<open>split\<close>: the piece before the first separator, then the split of the rest.\<close>

lemma split_aux_unfold:
  "sep \<noteq> [] \<Longrightarrow> split_aux sep acc s =
     (if contains sep s then (rev acc @ text_before sep s) # split_aux sep [] (text_after sep s)
      else [rev acc @ s])"
proof (induction s arbitrary: acc)
  case Nil
  then show ?case by simp
next
  case (Cons c cs)
  show ?case
  proof (cases "prefix sep (c # cs)")
    case True
    with Cons.prems show ?thesis by (cases sep) simp_all
  next
    case False
    with Cons.IH [OF Cons.prems, of "c # acc"] show ?thesis by simp
  qed
qed

lemma split_str_unfold:
  "sep \<noteq> [] \<Longrightarrow> split_str sep s =
     (if contains sep s then text_before sep s # split_str sep (text_after sep s) else [s])"
  using split_aux_unfold [of sep "[]" s] by (simp add: split_str_def)

lemma hd_split_str: "sep \<noteq> [] \<Longrightarrow> hd (split_str sep s) = text_before sep s"
  using split_str_unfold [of sep s] by (simp add: text_before_none)

lemma split_str_second:
  assumes "sep \<noteq> []" "contains sep s"
  shows "2 \<le> length (split_str sep s)"
    and "split_str sep s ! 1 = text_before sep (text_after sep s)"
proof -
  have ne: "split_str sep t \<noteq> []" for t
    using split_str_unfold [OF assms(1), of t] by simp
  have eq: "split_str sep s = text_before sep s # split_str sep (text_after sep s)"
    using split_str_unfold [OF assms(1), of s] assms(2) by simp
  show "2 \<le> length (split_str sep s)"
    using ne [of "text_after sep s"]
    by (cases "split_str sep (text_after sep s)") (simp_all add: eq)
  show "split_str sep s ! 1 = text_before sep (text_after sep s)"
    using ne [of "text_after sep s"] hd_split_str [OF assms(1), of "text_after sep s"]
    by (simp add: eq hd_conv_nth)
qed

lemma text_before_bracket: "text_before ''['' s = takeWhile (\<lambda>c. c \<noteq> CHR ''['') s"
  by (induction s) auto

lemma contains_bracket: "contains ''['' s \<longleftrightarrow> CHR ''['' \<in> set s"
  by (induction s) auto

section \<open>Properties of navigation\<close>

lemma find_position_match:
  "edge_match move_text line \<Longrightarrow> find_position move_text (line # rest) = Some (target_label line)"
  using split_str_second [of "''-->''" line]
  by (simp add: edge_match_def target_label_def edge_target_def Let_def hd_split_str
      text_before_bracket contains_bracket)

lemma find_position_skip:
  "\<not> edge_match move_text line \<Longrightarrow>
     find_position move_text (line # rest) = find_position move_text rest"
  by (auto simp add: edge_match_def)

lemma find_position_first:
  "i < length ls \<Longrightarrow> edge_match move_text (ls ! i) \<Longrightarrow> \<forall>j<i. \<not> edge_match move_text (ls ! j)
     \<Longrightarrow> find_position move_text ls = Some (target_label (ls ! i))"
proof (induction ls arbitrary: i)
  case Nil
  then show ?case by simp
next
  case (Cons l ls)
  show ?case
  proof (cases i)
    case 0
    with Cons.prems show ?thesis
      by (simp add: find_position_match del: find_position.simps)
  next
    case (Suc k)
    with Cons.prems have "\<not> edge_match move_text l" by auto
    moreover from Suc Cons.prems
    have "find_position move_text ls = Some (target_label (ls ! k))"
      by (intro Cons.IH) auto
    ultimately show ?thesis using Suc
      by (simp add: find_position_skip del: find_position.simps)
  qed
qed

lemma find_position_none:
  "\<forall>l \<in> set ls. \<not> edge_match move_text l \<Longrightarrow> find_position move_text ls = None"
  by (induction ls) (simp_all add: find_position_skip del: find_position.simps(2))

text \<open>On a line with a single arrow the target text is all that follows the arrow.\<close>

lemma edge_target_single:
  "\<not> contains ''-->'' (text_after ''-->'' line) \<Longrightarrow> edge_target line = text_after ''-->'' line"
  by (simp add: edge_target_def text_before_none)

lemmas nav_eval = resolve_next_node_def chart_lines_def split_str_def strip_def is_space_def
  edge_match_def target_label_def edge_target_def

text \<open>
  C1. Navigation goes through the lines of the chart in order and stops at the first
  line that holds an arrow and the chosen move text; the node it resolves to is the
  label of that line's target: the text after the arrow up to the first bracket (all of
  it when there is no bracket), trimmed. When that label is not empty, \<open>next_move\<close>
  asks for the chart of that node. For the chart
  \<open>A --> B[armbar setup]\<close>, \<open>X --> Y[armbar finish]\<close> and the move \<open>armbar\<close> the node is
  \<open>B\<close>.
\<close>

theorem next_move_first_match:
  assumes "i < length (chart_lines flow_chart)"
    and "edge_match move_text (chart_lines flow_chart ! i)"
    and "\<forall>j<i. \<not> edge_match move_text (chart_lines flow_chart ! j)"
  shows "resolve_next_node flow_chart move_text = Some (target_label (chart_lines flow_chart ! i))
    \<and> (target_label (chart_lines flow_chart ! i) \<noteq> [] \<longrightarrow>
         next_move ai flow_chart move_text measurables isMMA favorite_ideas =
           generate_flow_chart ai measurables (target_label (chart_lines flow_chart ! i))
             isMMA favorite_ideas)
    \<and> resolve_next_node ''A --> B[armbar setup]\<newline>X --> Y[armbar finish]'' ''armbar''
         = Some ''B''"
proof -
  have r: "resolve_next_node flow_chart move_text
             = Some (target_label (chart_lines flow_chart ! i))"
    unfolding resolve_next_node_def using assms by (rule find_position_first)
  have ex: "resolve_next_node ''A --> B[armbar setup]\<newline>X --> Y[armbar finish]'' ''armbar''
              = Some ''B''"
    by (simp add: nav_eval)
  from r ex show ?thesis by (simp add: next_move_def)
qed

theorem next_move_first_match_witness:
  "resolve_next_node ''A --> B[pass guard]\<newline>B --> C[mount]'' ''mount'' = Some ''C''
   \<and> chart_lines ''A --> B[pass guard]\<newline>B --> C[mount]'' ! 1 = ''B --> C[mount]''
   \<and> next_move echo_service ''A --> B[pass guard]\<newline>B --> C[mount]'' ''mount''
         ''tall'' True []
       = generate_flow_chart echo_service ''tall'' ''C'' True []"
proof -
  let ?fc = "''A --> B[pass guard]\<newline>B --> C[mount]''"
  have l: "chart_lines ?fc = [''A --> B[pass guard]'', ''B --> C[mount]'']"
    by (simp add: nav_eval)
  have h1: "1 < length (chart_lines ?fc)" by (simp add: l)
  have h2: "edge_match ''mount'' (chart_lines ?fc ! 1)" by (simp add: l edge_match_def)
  have h3: "\<forall>j<1. \<not> edge_match ''mount'' (chart_lines ?fc ! j)" by (simp add: l edge_match_def)
  have t: "target_label ''B --> C[mount]'' = ''C''"
    by (simp add: target_label_def edge_target_def strip_def is_space_def)
  from next_move_first_match [OF h1 h2 h3, of echo_service "''tall''" True "[]"] show ?thesis
    by (simp add: l t)
qed

text \<open>
  C2. When no edge statement of the chart holds the chosen move text, navigation finds
  no node (\<open>None\<close>, no exception) and \<open>next_move\<close> returns the chart it was given. So it
  is for the chart \<open>A --> B[pass guard]\<close>, \<open>B --> C[mount]\<close> and the move
  \<open>submission\<close>.
\<close>

theorem next_move_no_match:
  assumes "\<forall>line \<in> set (chart_lines flow_chart). \<not> edge_match move_text line"
  shows "resolve_next_node flow_chart move_text = None
    \<and> next_move ai flow_chart move_text measurables isMMA favorite_ideas = Inr flow_chart"
proof -
  have "resolve_next_node flow_chart move_text = None"
    unfolding resolve_next_node_def using assms by (rule find_position_none)
  then show ?thesis by (simp add: next_move_def)
qed

theorem next_move_no_match_witness:
  "resolve_next_node ''A --> B[pass guard]\<newline>B --> C[mount]'' ''submission'' = None
   \<and> next_move echo_service ''A --> B[pass guard]\<newline>B --> C[mount]'' ''submission''
         ''tall'' True []
       = Inr ''A --> B[pass guard]\<newline>B --> C[mount]''"
proof -
  let ?fc = "''A --> B[pass guard]\<newline>B --> C[mount]''"
  have l: "chart_lines ?fc = [''A --> B[pass guard]'', ''B --> C[mount]'']"
    by (simp add: nav_eval)
  have h: "\<forall>line \<in> set (chart_lines ?fc). \<not> edge_match ''submission'' line"
    by (simp add: l edge_match_def)
  from next_move_no_match [OF h] show ?thesis by simp
qed

text \<open>
  C9. When the first line that holds the move text and an arrow gives an empty label,
  \<open>next_move\<close> returns the chart it was given, as when no line matches: it does not ask
  for the chart of a node without a name, and it does not look at the later lines.
\<close>

theorem next_move_empty_label:
  assumes "i < length (chart_lines flow_chart)"
    and "edge_match move_text (chart_lines flow_chart ! i)"
    and "\<forall>j<i. \<not> edge_match move_text (chart_lines flow_chart ! j)"
    and "target_label (chart_lines flow_chart ! i) = []"
  shows "next_move ai flow_chart move_text measurables isMMA favorite_ideas = Inr flow_chart"
proof -
  have "find_position move_text (chart_lines flow_chart)
          = Some (target_label (chart_lines flow_chart ! i))"
    using assms(1-3) by (rule find_position_first)
  with assms(4) show ?thesis by (simp add: next_move_def resolve_next_node_def)
qed

theorem next_move_empty_label_witness:
  "target_label ''A --> [label]'' = [] \<and> target_label ''A -->'' = []
   \<and> next_move echo_service ''A --> [label]\<newline>A --> B[label]'' ''label'' ''tall'' True []
       = Inr ''A --> [label]\<newline>A --> B[label]''
   \<and> next_move echo_service ''X --> Y\<newline>A --> '' ''A'' ''tall'' True []
       = Inr ''X --> Y\<newline>A --> ''"
proof -
  let ?fc = "''A --> [label]\<newline>A --> B[label]''"
  let ?fd = "''X --> Y\<newline>A --> ''"
  have l: "chart_lines ?fc = [''A --> [label]'', ''A --> B[label]'']"
    by (simp add: nav_eval)
  have m: "chart_lines ?fd = [''X --> Y'', ''A -->'']"
    by (simp add: nav_eval)
  have t: "target_label ''A --> [label]'' = []" "target_label ''A -->'' = []"
    by (simp_all add: target_label_def edge_target_def strip_def is_space_def)
  have c: "next_move echo_service ?fc ''label'' ''tall'' True [] = Inr ?fc"
    by (rule next_move_empty_label [of 0]) (simp_all add: l t edge_match_def)
  have d: "next_move echo_service ?fd ''A'' ''tall'' True [] = Inr ?fd"
    by (rule next_move_empty_label [of 1]) (simp_all add: m t edge_match_def)
  from t c d show ?thesis by simp
qed

section \<open>Properties of the prompt builders\<close>

lemma contains_mid: "contains sub (ps @ sub @ ss)"
  by (simp add: contains_iff) blast

text \<open>
  A prompt is a template in the ruleset label when the text before the label and the
  text after it do not depend on the flag.
\<close>

lemma template_base: "\<exists>pre post. \<forall>b. match_type b @ r = pre @ match_type b @ post"
  by (rule exI [of _ "[]"]) simp

lemma template_append:
  "\<exists>pre post. \<forall>b. g b = pre @ match_type b @ post \<Longrightarrow>
     \<exists>pre post. \<forall>b. a @ g b = pre @ match_type b @ post"
proof -
  assume "\<exists>pre post. \<forall>b. g b = pre @ match_type b @ post"
  then obtain pre post where "\<forall>b. g b = pre @ match_type b @ post" by blast
  then have "\<forall>b. a @ g b = (a @ pre) @ match_type b @ post" by simp
  then show ?thesis by blast
qed

lemma template_contains:
  "\<exists>pre post. \<forall>b. f b = pre @ match_type b @ post \<Longrightarrow> contains (match_type b) (f b)"
  by (auto simp: contains_mid)

lemma grappling_plan_template:
  "\<exists>pre post. \<forall>b. grappling_plan_prompt p b k = pre @ match_type b @ post"
  unfolding grappling_plan_prompt_def Let_def
  by (cases "k = []"; simp only: simp_thms if_True if_False append_assoc)
     (intro template_base template_append)+

lemma analyse_match_template:
  "\<exists>pre post. \<forall>b. analyse_match_prompt p b k = pre @ match_type b @ post"
  unfolding analyse_match_prompt_def Let_def
  by (cases "k = []"; simp only: simp_thms if_True if_False append_assoc)
     (intro template_base template_append)+

lemma flow_chart_template:
  "\<exists>pre post. \<forall>b. flow_chart_prompt m q b f = pre @ match_type b @ post"
  unfolding flow_chart_prompt_def Let_def
  by (cases "f = []"; simp only: simp_thms if_True if_False append_assoc)
     (intro template_base template_append)+

lemma app_grappling_plan_template:
  "\<exists>pre post. \<forall>b. app_grappling_plan_prompt p b k = pre @ match_type b @ post"
  unfolding app_grappling_plan_prompt_def Let_def
  by (cases "k = []"; simp only: simp_thms if_True if_False append_assoc)
     (intro template_base template_append)+

lemma analyze_match_template:
  "\<exists>pre post. \<forall>b. analyze_match_prompt p b k = pre @ match_type b @ post"
  unfolding analyze_match_prompt_def Let_def
  by (cases "k = []"; simp only: simp_thms if_True if_False append_assoc)
     (intro template_base template_append)+

lemma app_flow_chart_template:
  "\<exists>pre post. \<forall>b. app_flow_chart_prompt m q b f = pre @ match_type b @ post"
  unfolding app_flow_chart_prompt_def Let_def
  by (cases "f = []"; simp only: simp_thms if_True if_False append_assoc)
     (intro template_base template_append)+

text \<open>
  C7. Each prompt builder that takes the ruleset flag puts the label of the flag into
  its instructions, whatever the other parameters are: with the flag set the prompt
  holds the text \<open>MMA\<close>, without it the text \<open>Jiu-jitsu\<close>. The label stands at one
  place of a text that is otherwise the same for both values of the flag.
\<close>

theorem prompt_ruleset_label:
  "(isMMA \<longrightarrow>
      contains ''MMA'' (grappling_plan_prompt p isMMA k)
    \<and> contains ''MMA'' (analyse_match_prompt p isMMA k)
    \<and> contains ''MMA'' (flow_chart_prompt m q isMMA f)
    \<and> contains ''MMA'' (app_grappling_plan_prompt p isMMA k)
    \<and> contains ''MMA'' (analyze_match_prompt p isMMA k)
    \<and> contains ''MMA'' (app_flow_chart_prompt m q isMMA f))
   \<and> (\<not> isMMA \<longrightarrow>
      contains ''Jiu-jitsu'' (grappling_plan_prompt p isMMA k)
    \<and> contains ''Jiu-jitsu'' (analyse_match_prompt p isMMA k)
    \<and> contains ''Jiu-jitsu'' (flow_chart_prompt m q isMMA f)
    \<and> contains ''Jiu-jitsu'' (app_grappling_plan_prompt p isMMA k)
    \<and> contains ''Jiu-jitsu'' (analyze_match_prompt p isMMA k)
    \<and> contains ''Jiu-jitsu'' (app_flow_chart_prompt m q isMMA f))
   \<and> (\<exists>pre post. \<forall>b. grappling_plan_prompt p b k
          = pre @ (if b then ''MMA'' else ''Jiu-jitsu'') @ post)
   \<and> (\<exists>pre post. \<forall>b. analyse_match_prompt p b k
          = pre @ (if b then ''MMA'' else ''Jiu-jitsu'') @ post)
   \<and> (\<exists>pre post. \<forall>b. flow_chart_prompt m q b f
          = pre @ (if b then ''MMA'' else ''Jiu-jitsu'') @ post)
   \<and> (\<exists>pre post. \<forall>b. app_grappling_plan_prompt p b k
          = pre @ (if b then ''MMA'' else ''Jiu-jitsu'') @ post)
   \<and> (\<exists>pre post. \<forall>b. analyze_match_prompt p b k
          = pre @ (if b then ''MMA'' else ''Jiu-jitsu'') @ post)
   \<and> (\<exists>pre post. \<forall>b. app_flow_chart_prompt m q b f
          = pre @ (if b then ''MMA'' else ''Jiu-jitsu'') @ post)"
proof -
  have c1: "contains (match_type isMMA) (grappling_plan_prompt p isMMA k)"
    using grappling_plan_template [of p k] by (rule template_contains)
  have c2: "contains (match_type isMMA) (analyse_match_prompt p isMMA k)"
    using analyse_match_template [of p k] by (rule template_contains)
  have c3: "contains (match_type isMMA) (flow_chart_prompt m q isMMA f)"
    using flow_chart_template [of m q f] by (rule template_contains)
  have c4: "contains (match_type isMMA) (app_grappling_plan_prompt p isMMA k)"
    using app_grappling_plan_template [of p k] by (rule template_contains)
  have c5: "contains (match_type isMMA) (analyze_match_prompt p isMMA k)"
    using analyze_match_template [of p k] by (rule template_contains)
  have c6: "contains (match_type isMMA) (app_flow_chart_prompt m q isMMA f)"
    using app_flow_chart_template [of m q f] by (rule template_contains)
  have yes: "isMMA \<Longrightarrow> match_type isMMA = ''MMA''"
    and no: "\<not> isMMA \<Longrightarrow> match_type isMMA = ''Jiu-jitsu''"
    by (simp_all add: match_type_def)
  have t: "match_type = (\<lambda>b. if b then ''MMA'' else ''Jiu-jitsu'')"
    by (rule ext) (simp only: match_type_def)
  show ?thesis
  proof (intro conjI impI)
    assume isMMA
    from c1 c2 c3 c4 c5 c6 yes [OF \<open>isMMA\<close>]
    show "contains ''MMA'' (grappling_plan_prompt p isMMA k)"
      and "contains ''MMA'' (analyse_match_prompt p isMMA k)"
      and "contains ''MMA'' (flow_chart_prompt m q isMMA f)"
      and "contains ''MMA'' (app_grappling_plan_prompt p isMMA k)"
      and "contains ''MMA'' (analyze_match_prompt p isMMA k)"
      and "contains ''MMA'' (app_flow_chart_prompt m q isMMA f)"
      by (simp_all only:)
  next
    assume "\<not> isMMA"
    from c1 c2 c3 c4 c5 c6 no [OF \<open>\<not> isMMA\<close>]
    show "contains ''Jiu-jitsu'' (grappling_plan_prompt p isMMA k)"
      and "contains ''Jiu-jitsu'' (analyse_match_prompt p isMMA k)"
      and "contains ''Jiu-jitsu'' (flow_chart_prompt m q isMMA f)"
      and "contains ''Jiu-jitsu'' (app_grappling_plan_prompt p isMMA k)"
      and "contains ''Jiu-jitsu'' (analyze_match_prompt p isMMA k)"
      and "contains ''Jiu-jitsu'' (app_flow_chart_prompt m q isMMA f)"
      by (simp_all only:)
  next
    show "\<exists>pre post. \<forall>b. grappling_plan_prompt p b k
            = pre @ (if b then ''MMA'' else ''Jiu-jitsu'') @ post"
      using grappling_plan_template [of p k] by (simp only: t)
    show "\<exists>pre post. \<forall>b. analyse_match_prompt p b k
            = pre @ (if b then ''MMA'' else ''Jiu-jitsu'') @ post"
      using analyse_match_template [of p k] by (simp only: t)
    show "\<exists>pre post. \<forall>b. flow_chart_prompt m q b f
            = pre @ (if b then ''MMA'' else ''Jiu-jitsu'') @ post"
      using flow_chart_template [of m q f] by (simp only: t)
    show "\<exists>pre post. \<forall>b. app_grappling_plan_prompt p b k
            = pre @ (if b then ''MMA'' else ''Jiu-jitsu'') @ post"
      using app_grappling_plan_template [of p k] by (simp only: t)
    show "\<exists>pre post. \<forall>b. analyze_match_prompt p b k
            = pre @ (if b then ''MMA'' else ''Jiu-jitsu'') @ post"
      using analyze_match_template [of p k] by (simp only: t)
    show "\<exists>pre post. \<forall>b. app_flow_chart_prompt m q b f
            = pre @ (if b then ''MMA'' else ''Jiu-jitsu'') @ post"
      using app_flow_chart_template [of m q f] by (simp only: t)
  qed
qed

theorem prompt_ruleset_label_witness:
  "contains ''MMA'' (flow_chart_prompt ''tall'' ''closed guard'' True [])
   \<and> contains ''Jiu-jitsu'' (flow_chart_prompt ''tall'' ''closed guard'' False [])
   \<and> contains ''MMA'' (app_flow_chart_prompt ''tall'' ''closed guard'' True ''sweeps'')
   \<and> contains ''Jiu-jitsu'' (app_flow_chart_prompt ''tall'' ''closed guard'' False ''sweeps'')"
  using prompt_ruleset_label [of True "''top''" "''heavy pressure''" "''tall''" "''closed guard''" "[]"]
    prompt_ruleset_label [of False "''top''" "''heavy pressure''" "''tall''" "''closed guard''" "[]"]
    prompt_ruleset_label [of True "''top''" "''heavy pressure''" "''tall''" "''closed guard''" "''sweeps''"]
    prompt_ruleset_label [of False "''top''" "''heavy pressure''" "''tall''" "''closed guard''" "''sweeps''"]
  by (simp only: simp_thms)

section \<open>Properties of the segment extractor\<close>

subsection \<open>Rounding to the nearest double\<close>

lemma scale_pos: "0 < subnormal_scale"
  unfolding subnormal_scale_def by (rule zero_less_power) simp

lemma bound_times_scale: "overflow_bound * subnormal_scale = 2 ^ (2045 + 53)"
proof -
  have "(1024::nat) + 1074 = 2045 + 53" by simp
  then show ?thesis
    unfolding overflow_bound_def subnormal_scale_def by (simp only: power_add [symmetric])
qed

lemma small_below_bound: "(2::rat) ^ 53 < overflow_bound"
  unfolding overflow_bound_def by (rule power_strict_increasing) simp_all

lemma rhe_cases: "round_half_even q = \<lfloor>q\<rfloor> \<or> round_half_even q = \<lfloor>q\<rfloor> + 1"
  by (simp add: round_half_even_def Let_def)

lemma rhe_nearest: "\<bar>q - of_int (round_half_even q)\<bar> \<le> \<bar>q - of_int i\<bar>"
proof -
  let ?n = "\<lfloor>q\<rfloor>"
  have b: "of_int ?n \<le> q" "q < of_int ?n + 1" by linarith+
  have m: "\<bar>q - of_int (round_half_even q)\<bar> \<le> q - of_int ?n"
    "\<bar>q - of_int (round_half_even q)\<bar> \<le> of_int ?n + 1 - q"
    using b by (auto simp: round_half_even_def Let_def)
  consider "i \<le> ?n" | "?n + 1 \<le> i" by linarith
  then show ?thesis
  proof cases
    case 1
    then have "(of_int i :: rat) \<le> of_int ?n" by simp
    with b m(1) show ?thesis by linarith
  next
    case 2
    then have "(of_int ?n :: rat) + 1 \<le> of_int i" by (metis of_int_1 of_int_add of_int_le_iff)
    with b m(2) show ?thesis by linarith
  qed
qed

lemma rhe_nonneg: "0 \<le> q \<Longrightarrow> 0 \<le> round_half_even q"
  using rhe_cases [of q] by (auto simp: zero_le_floor) 

lemma rhe_upper: "q < of_int N \<Longrightarrow> round_half_even q \<le> N"
proof -
  assume "q < of_int N"
  then have "\<lfloor>q\<rfloor> < N" by (simp add: floor_less_iff)
  with rhe_cases [of q] show ?thesis by auto
qed

lemma grid_exp_le: "grid_exp n A \<le> n"
  by (induction n) auto

lemma grid_exp_lower: "0 < grid_exp n A \<Longrightarrow> 2 ^ (grid_exp n A + 52) \<le> A"
  by (induction n) (auto split: if_splits)

lemma grid_exp_upper: "A < 2 ^ (n + 53) \<Longrightarrow> A < 2 ^ (grid_exp n A + 53)"
proof (induction n)
  case 0
  then show ?case by simp
next
  case (Suc n)
  show ?case
  proof (cases "(2::rat) ^ (Suc n + 52) \<le> A")
    case True
    with Suc.prems show ?thesis by simp
  next
    case False
    then have "A < 2 ^ (n + 53)" by (simp add: not_le add.commute)
    with Suc.IH False show ?thesis by simp
  qed
qed

lemma grid_exp_eq:
  "j \<le> n \<Longrightarrow> j = 0 \<or> 2 ^ (j + 52) \<le> A \<Longrightarrow> j = n \<or> A < 2 ^ (j + 53) \<Longrightarrow> grid_exp n A = j"
proof (induction n)
  case 0
  then show ?case by simp
next
  case (Suc n)
  show ?case
  proof (cases "j = Suc n")
    case True
    with Suc.prems show ?thesis by simp
  next
    case False
    with Suc.prems have jn: "j \<le> n" and up: "A < 2 ^ (j + 53)" by auto
    have "(2::rat) ^ (j + 53) \<le> 2 ^ (Suc n + 52)"
      using jn by (intro power_increasing) auto
    with up have "\<not> 2 ^ (Suc n + 52) \<le> A" by linarith
    moreover have "grid_exp n A = j"
      using jn Suc.prems(2) up by (intro Suc.IH) auto
    ultimately show ?thesis by simp
  qed
qed


lemma is_double_nonneg_cases:
  assumes "is_double d"
  obtains m j where "\<bar>d\<bar> = of_nat m * 2 ^ j / subnormal_scale" "m \<le> 2 ^ 53"
  using assms unfolding is_double_def by blast

lemma nearest_double_nearest_abs:
  assumes "0 \<le> x" and "is_double d"
  shows "\<bar>x - nearest_double x\<bar> \<le> \<bar>x - \<bar>d\<bar>\<bar>"
proof -
  define A where "A = x * subnormal_scale"
  define j where "j = grid_exp 2045 A"
  define m where "m = round_half_even (A / 2 ^ j)"
  define u :: rat where "u = 2 ^ j / subnormal_scale"
  have u: "0 < u" using scale_pos by (simp add: u_def)
  have r: "nearest_double x = of_int m * u"
    by (simp add: nearest_double_def Let_def A_def j_def m_def u_def)
  have xu: "x = (A / 2 ^ j) * u" using scale_pos by (simp add: A_def u_def)
  have near: "\<bar>x - of_int m * u\<bar> \<le> \<bar>x - of_int i * u\<bar>" for i
  proof -
    have "\<bar>A / 2 ^ j - of_int m\<bar> \<le> \<bar>A / 2 ^ j - of_int i\<bar>"
      unfolding m_def by (rule rhe_nearest)
    then have "\<bar>A / 2 ^ j - of_int m\<bar> * u \<le> \<bar>A / 2 ^ j - of_int i\<bar> * u"
      using u by (simp add: mult_right_mono)
    moreover have "\<bar>x - of_int k * u\<bar> = \<bar>A / 2 ^ j - of_int k\<bar> * u" for k
    proof -
      have "x - of_int k * u = (A / 2 ^ j - of_int k) * u"
        by (subst xu) (simp add: algebra_simps)
      then show ?thesis using u by (simp add: abs_mult)
    qed
    ultimately show ?thesis by simp
  qed
  from assms(2) obtain m' j' where d: "\<bar>d\<bar> = of_nat m' * 2 ^ j' / subnormal_scale" and m': "m' \<le> 2 ^ 53"
    by (rule is_double_nonneg_cases)
  show ?thesis
  proof (cases "j \<le> j'")
    case True
    then have "(2::rat) ^ j' = 2 ^ (j' - j) * 2 ^ j"
      by (simp add: power_add [symmetric])
    then have "\<bar>d\<bar> = of_int (int (m' * 2 ^ (j' - j))) * u"
      by (simp add: d u_def)
    with near [of "int (m' * 2 ^ (j' - j))"] r show ?thesis by simp
  next
    case False
    then have jpos: "0 < j" and lt: "j' < j" by auto
    from jpos have low: "2 ^ (j + 52) \<le> A"
      unfolding j_def by (rule grid_exp_lower)
    have "(of_nat m' :: rat) \<le> of_nat (2 ^ 53)" using m' by (simp only: of_nat_le_iff)
    then have "(of_nat m' :: rat) \<le> 2 ^ 53" by simp
    then have "of_nat m' * (2::rat) ^ j' \<le> 2 ^ 53 * 2 ^ j'"
      by (intro mult_right_mono) simp_all
    also have "\<dots> = 2 ^ (j' + 53)" by (simp add: power_add)
    also have "\<dots> \<le> 2 ^ (j + 52)" using lt by (intro power_increasing) auto
    finally have dle: "of_nat m' * (2::rat) ^ j' \<le> 2 ^ (j + 52)" .
    have "(2::rat) ^ (j + 52) / subnormal_scale = of_int (2 ^ 52) * u"
      by (simp add: u_def power_add)
    with near [of "2 ^ 52"] have n52: "\<bar>x - of_int m * u\<bar> \<le> \<bar>x - 2 ^ (j + 52) / subnormal_scale\<bar>"
      by simp
    have xge: "2 ^ (j + 52) / subnormal_scale \<le> x"
      using low scale_pos by (simp add: A_def divide_le_eq)
    have dle': "\<bar>d\<bar> \<le> 2 ^ (j + 52) / subnormal_scale"
      using dle scale_pos by (simp add: d divide_right_mono)
    from n52 xge dle' r show ?thesis by linarith
  qed
qed

lemma nearest_double_nearest:
  assumes "0 \<le> x" and "is_double d"
  shows "\<bar>x - nearest_double x\<bar> \<le> \<bar>x - d\<bar>"
  using nearest_double_nearest_abs [OF assms] assms(1) by linarith

lemma nearest_double_nonneg: "0 \<le> x \<Longrightarrow> 0 \<le> nearest_double x"
  using scale_pos by (simp add: nearest_double_def Let_def rhe_nonneg)

lemma nearest_double_is_double:
  assumes "0 \<le> x" and "x < overflow_bound" and "nearest_double x < overflow_bound"
  shows "is_double (nearest_double x)"
proof -
  define A where "A = x * subnormal_scale"
  define j where "j = grid_exp 2045 A"
  define m where "m = round_half_even (A / 2 ^ j)"
  have r: "nearest_double x = of_int m * 2 ^ j / subnormal_scale"
    by (simp add: nearest_double_def Let_def A_def j_def m_def)
  have "A < overflow_bound * subnormal_scale" using assms(2) scale_pos by (simp add: A_def)
  also have "\<dots> = (2::rat) ^ (2045 + 53)" by (rule bound_times_scale)
  finally have "A < 2 ^ (j + 53)" unfolding j_def by (rule grid_exp_upper)
  then have "A / 2 ^ j < of_int (2 ^ 53)" by (simp add: divide_less_eq power_add)
  then have mu: "m \<le> 2 ^ 53" unfolding m_def by (rule rhe_upper)
  have "0 \<le> A / 2 ^ j" using assms(1) scale_pos by (simp add: A_def)
  then have ml: "0 \<le> m" unfolding m_def by (rule rhe_nonneg)
  from ml mu have "nat m \<le> 2 ^ 53" by (simp add: nat_le_iff)
  moreover from ml have "\<bar>nearest_double x\<bar> = of_nat (nat m) * 2 ^ j / subnormal_scale"
    using nearest_double_nonneg [OF assms(1)] by (simp add: r [symmetric])
  moreover from ml assms(3) have "\<bar>nearest_double x\<bar> < overflow_bound"
    using nearest_double_nonneg [OF assms(1)] by simp
  ultimately show ?thesis unfolding is_double_def by blast
qed

lemma nearest_double_exact: "0 \<le> x \<Longrightarrow> is_double x \<Longrightarrow> nearest_double x = x"
  using nearest_double_nearest [of x x] by simp

lemma is_double_of_nat: "n \<le> 2 ^ 53 \<Longrightarrow> is_double (of_nat n)"
proof -
  assume n: "n \<le> 2 ^ 53"
  have "(of_nat n :: rat) \<le> of_nat (2 ^ 53)" using n by (simp only: of_nat_le_iff)
  also have "\<dots> < overflow_bound" using small_below_bound by simp
  finally have "\<bar>of_nat n :: rat\<bar> < overflow_bound" by simp
  moreover have "\<bar>of_nat n :: rat\<bar> = of_nat n * subnormal_scale / subnormal_scale"
    using scale_pos by simp
  then have "\<bar>of_nat n :: rat\<bar> = of_nat n * 2 ^ 1074 / subnormal_scale"
    by (subst (asm) (1) subnormal_scale_def)
  ultimately show ?thesis using n unfolding is_double_def by blast
qed

lemma nearest_double_le:
  assumes "0 \<le> x" and "x \<le> d" and "is_double d"
  shows "nearest_double x \<le> d"
  using nearest_double_nearest [OF assms(1,3)] assms(2) by linarith

lemma nearest_double_mono:
  assumes "0 \<le> x" and "x < y" and "y < overflow_bound"
    and "nearest_double x < overflow_bound" and "nearest_double y < overflow_bound"
  shows "nearest_double x \<le> nearest_double y"
proof -
  have dx: "is_double (nearest_double x)"
    using assms by (intro nearest_double_is_double) auto
  have dy: "is_double (nearest_double y)"
    using assms by (intro nearest_double_is_double) auto
  from nearest_double_nearest [OF assms(1) dy]
    nearest_double_nearest [of y "nearest_double x"] dx assms(1,2)
  show ?thesis by linarith
qed

lemma nearest_double_eval:
  assumes "j \<le> 2045" and "j = 0 \<or> 2 ^ (j + 52) \<le> x * subnormal_scale"
    and "j = 2045 \<or> x * subnormal_scale < 2 ^ (j + 53)"
  shows "nearest_double x
     = of_int (round_half_even (x * subnormal_scale / 2 ^ j)) * 2 ^ j / subnormal_scale"
  using grid_exp_eq [OF assms] by (simp add: nearest_double_def Let_def)

lemma is_double_dyadic:
  assumes "m \<le> 2 ^ 53" and "k \<le> 1074"
  shows "is_double (of_nat m / 2 ^ k)"
proof -
  have "(2::rat) ^ 1074 = 2 ^ (1074 - k) * 2 ^ k"
    using assms(2) by (simp only: power_add [symmetric]) simp
  then have s: "subnormal_scale = 2 ^ (1074 - k) * 2 ^ k"
    by (simp only: subnormal_scale_def)
  have "(of_nat m :: rat) / 2 ^ k = of_nat m * 2 ^ (1074 - k) / subnormal_scale"
    by (subst s) simp
  moreover have "\<bar>of_nat m / 2 ^ k :: rat\<bar> = of_nat m / 2 ^ k"
    by (rule abs_of_nonneg) simp
  ultimately have a: "\<bar>of_nat m / 2 ^ k :: rat\<bar> = of_nat m * 2 ^ (1074 - k) / subnormal_scale"
    by (simp only:)
  have "(of_nat m :: rat) / 2 ^ k \<le> of_nat m"
    by (simp add: divide_le_eq mult_le_cancel_left1)
  also have "\<dots> \<le> of_nat (2 ^ 53)" using assms(1) by (simp only: of_nat_le_iff)
  also have "\<dots> < overflow_bound" using small_below_bound by simp
  finally have "\<bar>of_nat m / 2 ^ k :: rat\<bar> < overflow_bound" by simp
  with a assms(1) show ?thesis unfolding is_double_def by blast
qed

lemma fround_nonneg:
  "0 \<le> x \<Longrightarrow> nearest_double x < overflow_bound \<Longrightarrow> fround x = Fin (nearest_double x)"
  by (simp add: fround_def Let_def)

text \<open>A product that is a double is not changed by the rounding.\<close>

lemma fround_double: "0 \<le> x \<Longrightarrow> is_double x \<Longrightarrow> fround x = Fin x"
proof -
  assume x: "0 \<le> x" and d: "is_double x"
  from d x have "x < overflow_bound" by (auto simp: is_double_def)
  with nearest_double_exact [OF x d] x show ?thesis by (simp add: fround_nonneg)
qed

lemma rhe_lower: "of_int N \<le> q \<Longrightarrow> N \<le> round_half_even q"
proof -
  assume "of_int N \<le> q"
  then have "N \<le> \<lfloor>q\<rfloor>" by (simp add: le_floor_iff)
  with rhe_cases [of q] show ?thesis by auto
qed

text \<open>A product of \<open>2^1024\<close> or more overflows.\<close>

lemma fround_overflow:
  assumes "overflow_bound \<le> x"
  shows "fround x = PosInf"
proof -
  define A where "A = x * subnormal_scale"
  define Q :: rat where "Q = 2 ^ 2045"
  define m where "m = round_half_even (A / Q)"
  have Q: "0 < Q" unfolding Q_def by (rule zero_less_power) simp
  have "(2::rat) ^ (2045 + 53) = Q * 2 ^ 53" unfolding Q_def by (rule power_add)
  then have BS: "overflow_bound * subnormal_scale = of_int (2 ^ 53) * Q"
    by (simp add: bound_times_scale)
  from assms scale_pos have "overflow_bound * subnormal_scale \<le> A"
    by (simp add: A_def)
  then have big: "of_int (2 ^ 53) * Q \<le> A" by (simp only: BS)
  have "(2::rat) ^ (2045 + 52) \<le> 2 ^ (2045 + 53)" by (rule power_increasing) simp_all
  also have "\<dots> = overflow_bound * subnormal_scale" by (rule bound_times_scale [symmetric])
  also have "\<dots> \<le> A" by fact
  finally have c: "2 ^ (2045 + 52) \<le> A" .
  have j: "grid_exp 2045 A = 2045"
    by (rule grid_exp_eq [OF le_refl disjI2 [OF c] disjI1 [OF refl]])
  from big Q have "of_int (2 ^ 53) \<le> A / Q" by (simp add: le_divide_eq)
  then have "2 ^ 53 \<le> m" unfolding m_def by (rule rhe_lower)
  then have "(of_int (2 ^ 53) :: rat) \<le> of_int m" by (simp only: of_int_le_iff)
  with Q have "of_int (2 ^ 53) * Q \<le> of_int m * Q" by (intro mult_right_mono) simp_all
  with scale_pos have "of_int (2 ^ 53) * Q / subnormal_scale \<le> of_int m * Q / subnormal_scale"
    by (intro divide_right_mono) simp_all
  moreover have "of_int (2 ^ 53) * Q / subnormal_scale = overflow_bound"
    using scale_pos by (simp only: BS [symmetric]) simp
  moreover have "nearest_double x = of_int m * Q / subnormal_scale"
    unfolding nearest_double_def Let_def A_def [symmetric] j m_def Q_def by (rule refl)
  ultimately have r: "overflow_bound \<le> nearest_double x" by simp
  have "(0::rat) < 2 ^ 53" by simp
  with small_below_bound assms have x: "0 < x" by linarith
  then have "\<bar>x\<bar> = x" by simp
  with r x show ?thesis by (simp add: fround_def Let_def)
qed

text \<open>The rounding of a number from \<open>1\<close> on, with the exponent \<open>t\<close> of its binade.\<close>

lemma nearest_double_normal:
  assumes "2 ^ t \<le> x" and "x < 2 ^ (t + 1)" and "t \<le> 1023"
  shows "nearest_double x = of_int (round_half_even (x * 2 ^ 52 / 2 ^ t)) * 2 ^ t / 2 ^ 52"
proof -
  define P :: rat where "P = 2 ^ 1022"
  have P: "0 < P" unfolding P_def by (rule zero_less_power) simp
  have "(1074::nat) = 1022 + 52" by simp
  then have S: "subnormal_scale = P * 2 ^ 52"
    unfolding subnormal_scale_def P_def by (simp only: power_add)
  have e1: "(2::rat) ^ (1022 + t + 52) = P * 2 ^ 52 * 2 ^ t"
    unfolding P_def by (simp only: power_add mult_ac)
  have e2: "(2::rat) ^ (1022 + t + 53) = P * 2 ^ 52 * 2 ^ (t + 1)"
  proof -
    have "1022 + t + 53 = 1022 + 52 + (t + 1)" by simp
    then show ?thesis unfolding P_def by (simp only: power_add)
  qed
  have e3: "(2::rat) ^ (1022 + t) = P * 2 ^ t"
    unfolding P_def by (simp only: power_add)
  have c1: "2 ^ (1022 + t + 52) \<le> x * subnormal_scale"
    using assms(1) P by (simp only: e1 S) (simp add: mult.commute mult.left_commute)
  have c2: "x * subnormal_scale < 2 ^ (1022 + t + 53)"
    using assms(2) P by (simp only: e2 S) (simp add: mult.commute mult.left_commute)
  have "nearest_double x
     = of_int (round_half_even (x * subnormal_scale / 2 ^ (1022 + t))) * 2 ^ (1022 + t)
         / subnormal_scale"
    using assms(3) c1 c2 by (intro nearest_double_eval) simp_all
  also have "x * subnormal_scale / 2 ^ (1022 + t) = x * 2 ^ 52 / 2 ^ t"
    using P by (simp only: e3 S) simp
  also have "of_int (round_half_even (x * 2 ^ 52 / 2 ^ t)) * 2 ^ (1022 + t) / subnormal_scale
      = of_int (round_half_even (x * 2 ^ 52 / 2 ^ t)) * 2 ^ t / 2 ^ 52"
    using P by (simp only: e3 S) simp
  finally show ?thesis .
qed

text \<open>Products of the sample data.\<close>

lemma fround_samples: "fround 0 = Fin 0" "fround 5 = Fin 5" "fround 10 = Fin 10"
proof -
  have d: "is_double (of_nat m)" if "m \<le> 2 ^ 53" for m
    using that by (rule is_double_of_nat)
  from d [of 0] show "fround 0 = Fin 0" by (simp add: fround_double)
  from d [of 5] show "fround 5 = Fin 5" by (simp add: fround_double)
  from d [of 10] show "fround 10 = Fin 10" by (simp add: fround_double)
qed

text \<open>\<open>0.6 * 5.0\<close> is \<open>3.0\<close>: the exact product lies below 3 and is rounded up.\<close>

lemma fround_point_six: "point_six * 5 < 3" "fround (point_six * 5) = Fin 3"
proof -
  show "point_six * 5 < 3" by (simp add: point_six_def)
  have "nearest_double (point_six * 5)
      = of_int (round_half_even (point_six * 5 * 2 ^ 52 / 2 ^ 1)) * 2 ^ 1 / 2 ^ 52"
    by (rule nearest_double_normal) (simp_all add: point_six_def)
  also have "round_half_even (point_six * 5 * 2 ^ 52 / 2 ^ 1) = 6755399441055744"
  proof -
    have q: "point_six * 5 * 2 ^ 52 / 2 ^ 1 = 27021597764222975 / 4"
      by (simp add: point_six_def)
    have fl: "\<lfloor>27021597764222975 / 4 :: rat\<rfloor> = 6755399441055743"
      by (rule floor_unique) simp_all
    show ?thesis by (simp only: q) (simp add: round_half_even_def Let_def fl)
  qed
  finally have n: "nearest_double (point_six * 5) = 3" by simp
  have "(3::rat) \<le> 2 ^ 53" by simp
  with small_below_bound have "(3::rat) < overflow_bound" by linarith
  with n show "fround (point_six * 5) = Fin 3"
    by (simp add: fround_nonneg point_six_def)
qed

text \<open>\<open>2.0 ** 1023 * 5.0\<close> is infinite.\<close>

lemma fround_huge: "fround (huge_time * 5) = PosInf"
proof -
  have "(1024::nat) = Suc 1023" by simp
  then have "overflow_bound = 2 * huge_time"
    unfolding overflow_bound_def huge_time_def by (simp only: power_Suc)
  moreover have "0 < huge_time" unfolding huge_time_def by (rule zero_less_power) simp
  ultimately have "overflow_bound \<le> huge_time * 5" by simp
  then show ?thesis by (rule fround_overflow)
qed


subsection \<open>The extractor\<close>

declare copy_frames.simps [simp del]


text \<open>
  What the loop does on an open capture that stands at \<open>cur\<close>: it writes the frames from
  \<open>cur\<close> to \<open>e\<close>, or to the end of the video if that comes first.
\<close>

lemma copy_frames_result:
  assumes "cap_source c = Some v" and "\<not> cap_released c" and "cap_pos c = cur" and "0 \<le> cur"
  shows "\<exists>p. copy_frames cur e c w =
           (c\<lparr>cap_pos := p\<rparr>,
            w\<lparr>w_frames := w_frames w @ take (nat (e + 1 - cur)) (drop (nat cur) (v_frames v))\<rparr>)"
  using assms
proof (induction cur e c w rule: copy_frames.induct)
  case (1 cur e c w)
  show ?case
  proof (cases "cur \<le> e")
    case False
    then have "copy_frames cur e c w = (c, w)" by (simp add: copy_frames.simps)
    moreover from False have "nat (e + 1 - cur) = 0" by simp
    ultimately show ?thesis using "1.prems"(3) by (intro exI [of _ cur]) simp
  next
    case True
    show ?thesis
    proof (cases "cur < int (length (v_frames v))")
      case False
      with "1.prems" have "cap_read c = (None, c)" by (simp add: cap_read_def)
      with True have "copy_frames cur e c w = (c, w)" by (simp add: copy_frames.simps)
      moreover from False "1.prems"(4) have "drop (nat cur) (v_frames v) = []" by simp
      ultimately show ?thesis using "1.prems"(3) by (intro exI [of _ cur]) simp
    next
      case inb: True
      let ?c' = "c\<lparr>cap_pos := cur + 1\<rparr>"
      let ?f = "v_frames v ! nat cur"
      from inb "1.prems" have rd: "cap_read c = (Some ?f, ?c')" by (simp add: cap_read_def)
      from "1.prems" have "\<exists>p. copy_frames (cur + 1) e ?c' (writer_write w ?f) =
           (?c'\<lparr>cap_pos := p\<rparr>,
            (writer_write w ?f)\<lparr>w_frames := w_frames (writer_write w ?f)
               @ take (nat (e + 1 - (cur + 1))) (drop (nat (cur + 1)) (v_frames v))\<rparr>)"
        by (intro "1.IH" [OF True rd [symmetric] refl]) simp_all
      then obtain p where ih: "copy_frames (cur + 1) e ?c' (writer_write w ?f) =
           (?c'\<lparr>cap_pos := p\<rparr>,
            (writer_write w ?f)\<lparr>w_frames := w_frames (writer_write w ?f)
               @ take (nat (e + 1 - (cur + 1))) (drop (nat (cur + 1)) (v_frames v))\<rparr>)"
        by blast
      from inb "1.prems"(4) have d: "drop (nat cur) (v_frames v) = ?f # drop (nat (cur + 1)) (v_frames v)"
        by (simp add: Cons_nth_drop_Suc nat_add_distrib)
      from True have n: "nat (e + 1 - cur) = Suc (nat (e + 1 - (cur + 1)))" by simp
      have "copy_frames cur e c w = copy_frames (cur + 1) e ?c' (writer_write w ?f)"
        using True rd by (subst copy_frames.simps) simp
      with ih d n show ?thesis
        by (intro exI [of _ p]) (simp add: writer_write_def)
    qed
  qed
qed


lemma extract_body_finite:
  assumes "fs input_path = Some v" and "v_fps v = Fin f"
    and "fmul (Fin s) (Fin f) = Fin ps" and "fmul (Fin e) (Fin f) = Fin pe"
    and "0 \<le> ps" and "0 \<le> pe"
  shows "\<exists>p. extract_body fs input_path output_path (Fin s) (Fin e) =
           (Inr True,
            \<lparr>cap_source = Some v, cap_pos = p, cap_released = True\<rparr>,
            Some \<lparr>w_path = output_path, w_fourcc = ''mp4v'', w_fps = Fin f,
                  w_size = (int (v_width v), int (v_height v)),
                  w_frames = take (nat (\<lfloor>pe\<rfloor> + 1 - \<lfloor>ps\<rfloor>)) (drop (nat \<lfloor>ps\<rfloor>) (v_frames v)),
                  w_released = True\<rparr>)"
proof -
  let ?sf = "\<lfloor>ps\<rfloor>" and ?ef = "\<lfloor>pe\<rfloor>"
  let ?c = "\<lparr>cap_source = Some v, cap_pos = ?sf, cap_released = False\<rparr>"
  let ?w = "VideoWriter output_path ''mp4v'' (Fin f) (int (v_width v), int (v_height v))"
  from assms(5) have "0 \<le> ?sf" by simp
  then obtain p where cf: "copy_frames ?sf ?ef ?c ?w =
      (?c\<lparr>cap_pos := p\<rparr>,
       ?w\<lparr>w_frames := w_frames ?w @ take (nat (?ef + 1 - ?sf)) (drop (nat ?sf) (v_frames v))\<rparr>)"
    using copy_frames_result [of ?c v ?sf ?ef ?w] by auto
  have "extract_body fs input_path output_path (Fin s) (Fin e) =
           (Inr True,
            \<lparr>cap_source = Some v, cap_pos = p, cap_released = True\<rparr>,
            Some \<lparr>w_path = output_path, w_fourcc = ''mp4v'', w_fps = Fin f,
                  w_size = (int (v_width v), int (v_height v)),
                  w_frames = take (nat (?ef + 1 - ?sf)) (drop (nat ?sf) (v_frames v)),
                  w_released = True\<rparr>)"
    using assms cf
    by (simp add: extract_body_def VideoCapture_def isOpened_def cap_get_fps_def
        cap_get_width_def cap_get_height_def cap_set_pos_def cap_release_def
        writer_release_def VideoWriter_def Let_def)
  then show ?thesis by blast
qed

text \<open>
  C3. For a video that opens (of at most \<open>2^53\<close> frames), a frame rate above zero and
  times \<open>0 \<le> start_seconds < end_seconds\<close> within the duration of the video, the
  extractor returns \<open>True\<close> and writes the frames from index \<open>floor(start_seconds * fps)\<close>
  to index \<open>floor(end_seconds * fps)\<close>, both included, as far as the video has them;
  the products are the float products that the program computes, and they lie between
  zero and the number of frames, the first one not above the second. The number of
  frames written is \<open>floor(end_seconds * fps) - floor(start_seconds * fps) + 1\<close> when the
  end frame exists, and differs from it by at most one otherwise. The output has the
  frame rate, the width and the height of the source.
\<close>

theorem extract_segment_frames:
  assumes "fs input_path = Some v" and "v_fps v = Fin fps" and "0 < fps"
    and "0 \<le> start_seconds" and "start_seconds < end_seconds"
    and "end_seconds \<le> of_nat (length (v_frames v)) / fps"
    and "length (v_frames v) \<le> 2 ^ 53"
  shows "\<exists>ps pe.
           fmul (Fin start_seconds) (Fin fps) = Fin ps
         \<and> fmul (Fin end_seconds) (Fin fps) = Fin pe
         \<and> 0 \<le> ps \<and> ps \<le> pe \<and> pe \<le> of_nat (length (v_frames v))
         \<and> (let r = extract_video_segment fs input_path output_path
                      (Fin start_seconds) (Fin end_seconds);
                 start_frame = \<lfloor>ps\<rfloor>;
                 end_frame = \<lfloor>pe\<rfloor>;
                 segment = take (nat (end_frame + 1 - start_frame))
                             (drop (nat start_frame) (v_frames v))
             in ex_ok r \<and> ex_printed r = []
              \<and> ex_out r = Some \<lparr>w_path = output_path, w_fourcc = ''mp4v'', w_fps = v_fps v,
                                  w_size = (int (v_width v), int (v_height v)),
                                  w_frames = segment, w_released = True\<rparr>
              \<and> files_after fs r output_path
                  = Some \<lparr>v_frames = segment, v_fps = v_fps v, v_width = v_width v,
                          v_height = v_height v\<rparr>
              \<and> (end_frame < int (length (v_frames v)) \<longrightarrow>
                   int (length segment) = end_frame - start_frame + 1)
              \<and> \<bar>int (length segment) - (end_frame - start_frame + 1)\<bar> \<le> 1
              \<and> (\<forall>k < length segment. segment ! k = v_frames v ! (nat start_frame + k)))"
proof -
  let ?n = "length (v_frames v)"
  let ?ps = "nearest_double (start_seconds * fps)"
  let ?pe = "nearest_double (end_seconds * fps)"
  let ?sf = "\<lfloor>?ps\<rfloor>"
  let ?ef = "\<lfloor>?pe\<rfloor>"
  let ?seg = "take (nat (?ef + 1 - ?sf)) (drop (nat ?sf) (v_frames v))"
  from assms(3,4) have s0: "0 \<le> start_seconds * fps" by simp
  from assms(3,4,5) have e0: "0 \<le> end_seconds * fps" by simp
  from assms(3,5) have lt: "start_seconds * fps < end_seconds * fps" by simp
  from assms(3,6) have le: "end_seconds * fps \<le> of_nat ?n" by (simp add: pos_le_divide_eq)
  from assms(7) have dn: "is_double (of_nat ?n)" by (rule is_double_of_nat)
  then have nB: "(of_nat ?n :: rat) < overflow_bound" by (auto simp: is_double_def)
  from lt le have le1: "start_seconds * fps \<le> of_nat ?n" by linarith
  have pen: "?pe \<le> of_nat ?n" using e0 le dn by (rule nearest_double_le)
  have psn: "?ps \<le> of_nat ?n" using s0 le1 dn by (rule nearest_double_le)
  from pen psn nB have B: "?ps < overflow_bound" "?pe < overflow_bound" by linarith+
  from le nB have xB: "end_seconds * fps < overflow_bound" by linarith
  have mono: "?ps \<le> ?pe" using s0 lt xB B by (rule nearest_double_mono)
  have ps0: "0 \<le> ?ps" using s0 by (rule nearest_double_nonneg)
  from ps0 mono have pe0: "0 \<le> ?pe" by linarith
  have f1: "fmul (Fin start_seconds) (Fin fps) = Fin ?ps"
    using s0 B(1) by (simp add: fround_nonneg)
  have f2: "fmul (Fin end_seconds) (Fin fps) = Fin ?pe"
    using e0 B(2) by (simp add: fround_nonneg)
  from ps0 have sf0: "0 \<le> ?sf" by simp
  from mono have sfef: "?sf \<le> ?ef" by (rule floor_mono)
  from pen have "?ef \<le> \<lfloor>of_nat ?n :: rat\<rfloor>" by (rule floor_mono)
  then have efn: "?ef \<le> int ?n" by simp
  from sfef efn have sfn: "?sf \<le> int ?n" by linarith
  from extract_body_finite [where fs = fs and input_path = input_path
      and output_path = output_path, OF assms(1,2) f1 f2 ps0 pe0]
  obtain p where body: "extract_body fs input_path output_path (Fin start_seconds) (Fin end_seconds) =
           (Inr True,
            \<lparr>cap_source = Some v, cap_pos = p, cap_released = True\<rparr>,
            Some \<lparr>w_path = output_path, w_fourcc = ''mp4v'', w_fps = Fin fps,
                  w_size = (int (v_width v), int (v_height v)),
                  w_frames = ?seg, w_released = True\<rparr>)" by blast
  have len: "int (length ?seg) = min (?ef + 1 - ?sf) (int ?n - ?sf)"
    using sf0 sfef sfn by (simp add: min_def) linarith
  have nth: "\<forall>k < length ?seg. ?seg ! k = v_frames v ! (nat ?sf + k)"
    using sf0 sfn by (auto simp: nth_drop)
  have main: "let r = extract_video_segment fs input_path output_path
                      (Fin start_seconds) (Fin end_seconds);
                 start_frame = ?sf; end_frame = ?ef;
                 segment = take (nat (end_frame + 1 - start_frame))
                             (drop (nat start_frame) (v_frames v))
             in ex_ok r \<and> ex_printed r = []
              \<and> ex_out r = Some \<lparr>w_path = output_path, w_fourcc = ''mp4v'', w_fps = v_fps v,
                                  w_size = (int (v_width v), int (v_height v)),
                                  w_frames = segment, w_released = True\<rparr>
              \<and> files_after fs r output_path
                  = Some \<lparr>v_frames = segment, v_fps = v_fps v, v_width = v_width v,
                          v_height = v_height v\<rparr>
              \<and> (end_frame < int (length (v_frames v)) \<longrightarrow>
                   int (length segment) = end_frame - start_frame + 1)
              \<and> \<bar>int (length segment) - (end_frame - start_frame + 1)\<bar> \<le> 1
              \<and> (\<forall>k < length segment. segment ! k = v_frames v ! (nat start_frame + k))"
    unfolding Let_def
    using body len nth efn sfef assms(2)
    by (simp add: extract_video_segment_def files_after_def written_video_def min_def)
  from f1 f2 ps0 mono pen main show ?thesis by blast
qed

theorem extract_segment_frames_witness:
  "ex_ok (extract_video_segment sample_files ''match.mp4'' ''match_subset.mp4''
            (Fin point_six) (Fin 1))
   \<and> ex_out (extract_video_segment sample_files ''match.mp4'' ''match_subset.mp4''
            (Fin point_six) (Fin 1))
       = Some \<lparr>w_path = ''match_subset.mp4'', w_fourcc = ''mp4v'', w_fps = Fin 5,
               w_size = (4, 3), w_frames = [13, 14, 15], w_released = True\<rparr>
   \<and> ex_out (extract_video_segment sample_files ''match.mp4'' ''match_subset.mp4''
            (Fin 0) (Fin 1))
       = Some \<lparr>w_path = ''match_subset.mp4'', w_fourcc = ''mp4v'', w_fps = Fin 5,
               w_size = (4, 3), w_frames = [10, 11, 12, 13, 14, 15], w_released = True\<rparr>
   \<and> ex_out (extract_video_segment sample_files ''match.mp4'' ''match_subset.mp4''
            (Fin 1) (Fin 2))
       = Some \<lparr>w_path = ''match_subset.mp4'', w_fourcc = ''mp4v'', w_fps = Fin 5,
               w_size = (4, 3), w_frames = [15, 16, 17, 18, 19], w_released = True\<rparr>"
proof -
  have f: "sample_files ''match.mp4'' = Some sample_video"
    by (simp add: sample_files_def)
  have r: "v_fps sample_video = Fin 5" by (simp add: sample_video_def)
  have n: "(1 :: rat) \<le> of_nat (length (v_frames sample_video)) / 5"
    "(2 :: rat) \<le> of_nat (length (v_frames sample_video)) / 5"
    and l: "length (v_frames sample_video) \<le> 2 ^ 53"
    by (simp_all add: sample_video_def)
  have a: "(0::rat) < 5" "0 \<le> point_six" "point_six < 1"
    "(0::rat) \<le> 0" "(0::rat) < 1" "(0::rat) \<le> 1" "(1::rat) < 2"
    by (simp_all add: point_six_def)
  from extract_segment_frames [where fs = sample_files and input_path = "''match.mp4''"
        and output_path = "''match_subset.mp4''", OF f r a(1) a(2) a(3) n(1) l]
    extract_segment_frames [where fs = sample_files and input_path = "''match.mp4''"
        and output_path = "''match_subset.mp4''", OF f r a(1) a(4) a(5) n(1) l]
    extract_segment_frames [where fs = sample_files and input_path = "''match.mp4''"
        and output_path = "''match_subset.mp4''", OF f r a(1) a(6) a(7) n(2) l]
  show ?thesis
    by (simp add: Let_def fround_samples fround_point_six(2)) (simp add: sample_video_def)
qed

text \<open>
  C4, as amended. For a path whose video cannot be opened the extractor returns \<open>False\<close>:
  no exception is raised inside it or by it, nothing is printed, no writer is made and
  no file is written.
\<close>

theorem extract_unopened_returns_false:
  assumes "fs input_path = None"
  shows "extract_body fs input_path output_path start_time end_time
           = (Inr False, \<lparr>cap_source = None, cap_pos = 0, cap_released = False\<rparr>, None)
    \<and> extract_video_segment fs input_path output_path start_time end_time
           = \<lparr>ex_ok = False,
              ex_cap = \<lparr>cap_source = None, cap_pos = 0, cap_released = False\<rparr>,
              ex_out = None, ex_printed = []\<rparr>
    \<and> files_after fs (extract_video_segment fs input_path output_path start_time end_time) = fs"
  using assms
  by (simp add: extract_video_segment_def extract_body_def VideoCapture_def isOpened_def
      files_after_def)

theorem extract_unopened_returns_false_witness:
  "ex_ok (extract_video_segment sample_files ''clip.mov'' ''clip_subset.mov'' (Fin 1) (Fin 2))
     = False
   \<and> ex_printed (extract_video_segment sample_files ''clip.mov'' ''clip_subset.mov''
       (Fin 1) (Fin 2)) = []"
proof -
  have "sample_files ''clip.mov'' = None" by (simp add: sample_files_def)
  from extract_unopened_returns_false [where fs = sample_files
      and input_path = "''clip.mov''", OF this]
  show ?thesis by simp
qed

text \<open>
  C4 as stated fails: for a path with no video behind it the body of the extractor
  returns \<open>False\<close>; it raises no \<open>IOError\<close>, nor any other exception.
\<close>

theorem extract_unopened_counterexample:
  "sample_files ''missing.mp4'' = None
   \<and> fst (extract_body sample_files ''missing.mp4'' ''out.mp4'' (Fin 0) (Fin 1)) = Inr False
   \<and> \<not> isl (fst (extract_body sample_files ''missing.mp4'' ''out.mp4'' (Fin 0) (Fin 1)))"
  by (simp add: sample_files_def extract_body_def VideoCapture_def isOpened_def)

lemma fst_extract_body:
  "fst (extract_body fs input_path output_path start_time end_time) =
     (case fs input_path of
        None \<Rightarrow> Inr False
      | Some v \<Rightarrow>
          (case py_int (fmul start_time (v_fps v)) of
             Inl err \<Rightarrow> Inl err
           | Inr start_frame \<Rightarrow>
               (case py_int (fmul end_time (v_fps v)) of
                  Inl err \<Rightarrow> Inl err
                | Inr end_frame \<Rightarrow> Inr True)))"
  by (simp add: extract_body_def VideoCapture_def isOpened_def cap_get_fps_def
      cap_get_width_def cap_get_height_def Let_def case_prod_beta
      split: option.splits sum.splits)

lemma py_int_cases: "(\<exists>n. py_int x = Inr n) \<longleftrightarrow> (\<exists>a. x = Fin a)"
  by (cases x) simp_all

lemma ex_ok_fst: "ex_ok (extract_video_segment fs i out s e)
    = (fst (extract_body fs i out s e) = Inr True)"
  by (cases "extract_body fs i out s e")
     (auto simp: extract_video_segment_def split: sum.splits)

text \<open>
  C10. The extractor returns a boolean for every input and lets no exception out (its
  loop ends, and the \<open>except\<close> clause turns every exception of the body into
  \<open>False\<close>). It returns \<open>False\<close> when the video cannot be opened and when the body
  raises, and \<open>True\<close> otherwise: exactly when the video opens and both frame numbers
  can be computed.
\<close>

theorem extract_total:
  "ex_ok (extract_video_segment fs input_path output_path start_time end_time)
     = (\<exists>v. fs input_path = Some v \<and> (\<exists>a. fmul start_time (v_fps v) = Fin a)
            \<and> (\<exists>b. fmul end_time (v_fps v) = Fin b))
   \<and> (fs input_path = None \<longrightarrow>
        \<not> ex_ok (extract_video_segment fs input_path output_path start_time end_time))
   \<and> (isl (fst (extract_body fs input_path output_path start_time end_time)) \<longrightarrow>
        \<not> ex_ok (extract_video_segment fs input_path output_path start_time end_time))
   \<and> (fs input_path \<noteq> None
        \<and> \<not> isl (fst (extract_body fs input_path output_path start_time end_time)) \<longrightarrow>
        ex_ok (extract_video_segment fs input_path output_path start_time end_time))"
proof (cases "fs input_path")
  case None
  then show ?thesis by (simp add: ex_ok_fst fst_extract_body)
next
  case (Some v)
  show ?thesis
  proof (cases "fmul start_time (v_fps v)")
    case (Fin a)
    show ?thesis
      by (cases "fmul end_time (v_fps v)") (simp_all add: ex_ok_fst fst_extract_body Some Fin)
  qed (simp_all add: ex_ok_fst fst_extract_body Some)
qed

theorem extract_total_witness:
  "ex_ok (extract_video_segment sample_files ''match.mp4'' ''out.mp4'' (Fin 0) (Fin 1)) = True
   \<and> ex_ok (extract_video_segment sample_files ''missing.mp4'' ''out.mp4'' (Fin 0) (Fin 1))
       = False
   \<and> ex_ok (extract_video_segment sample_files ''match.mp4'' ''out.mp4'' NaN (Fin 1)) = False
   \<and> ex_ok (extract_video_segment sample_files ''match.mp4'' ''out.mp4'' (Fin 0) PosInf)
       = False
   \<and> ex_ok (extract_video_segment sample_files ''match.mp4'' ''out.mp4'' (Fin huge_time)
       (Fin 1)) = False"
  using extract_total [of sample_files "''match.mp4''" "''out.mp4''" "Fin 0" "Fin 1"]
    extract_total [of sample_files "''missing.mp4''" "''out.mp4''" "Fin 0" "Fin 1"]
    extract_total [of sample_files "''match.mp4''" "''out.mp4''" NaN "Fin 1"]
    extract_total [of sample_files "''match.mp4''" "''out.mp4''" "Fin 0" PosInf]
    extract_total [of sample_files "''match.mp4''" "''out.mp4''" "Fin huge_time" "Fin 1"]
  by (simp add: sample_files_def sample_video_def fround_samples fround_huge)

text \<open>
  C6. The claim asks for the capture and the writer to be released on every way out
  of the extractor. The code releases them at the end of the \<open>try\<close> block only: with
  a start time that is NaN the conversion to a frame number raises after the capture
  was opened and the writer made, the extractor returns \<open>False\<close>, and both are left
  unreleased.
\<close>

theorem extract_exception_no_release:
  "extract_video_segment sample_files ''match.mp4'' ''match_subset.mp4'' NaN (Fin 1)
     = \<lparr>ex_ok = False,
        ex_cap = \<lparr>cap_source = Some sample_video, cap_pos = 0, cap_released = False\<rparr>,
        ex_out = Some \<lparr>w_path = ''match_subset.mp4'', w_fourcc = ''mp4v'', w_fps = Fin 5,
                       w_size = (4, 3), w_frames = [], w_released = False\<rparr>,
        ex_printed = [''Error extracting video segment: cannot convert float NaN to integer'']\<rparr>
   \<and> isOpened (ex_cap (extract_video_segment sample_files ''match.mp4'' ''match_subset.mp4''
        NaN (Fin 1)))"
  by (simp add: extract_video_segment_def extract_body_def VideoCapture_def isOpened_def
      cap_get_fps_def cap_get_width_def cap_get_height_def VideoWriter_def
      sample_files_def sample_video_def)

text \<open>
  C5. The claim asks the analysis to fall back to the original video when the
  extraction fails. The code hands the path of the subset to the service whenever both
  times are given, whatever the extractor returned: so it does for a video that cannot
  be opened (no subset file is written at all) and for a start time that is NaN (the
  subset file holds no frame).
\<close>

theorem analyze_ignores_failed_extraction:
  "fst (analyze_grappling_match ai fs video_path player_variable isMMA keywords
          (Some start_time) (Some end_time))
     = generate_video_description ai
         (fst (splitext video_path) @ ''_subset'' @ snd (splitext video_path))
         (analyze_match_prompt player_variable isMMA keywords)
   \<and> ex_ok (extract_video_segment sample_files ''clip.mov'' ''clip_subset.mov''
              (Fin 0) (Fin 1)) = False
   \<and> fst (analyze_grappling_match echo_service sample_files ''clip.mov'' ''top'' True []
            (Some (Fin 0)) (Some (Fin 1))) = Inr ''clip_subset.mov''
   \<and> fst (analyze_grappling_match echo_service sample_files ''match.mp4'' ''top'' True []
            (Some NaN) (Some (Fin 1))) = Inr ''match_subset.mp4''"
proof -
  have g: "fst (analyze_grappling_match ai fs video_path player_variable isMMA kw
          (Some start_time) (Some end_time))
     = generate_video_description ai
         (fst (splitext video_path) @ ''_subset'' @ snd (splitext video_path))
         (analyze_match_prompt player_variable isMMA kw)"
    for ai fs video_path player_variable isMMA kw start_time end_time
    by (simp add: analyze_grappling_match_def Let_def split: sum.splits)
  have s: "splitext ''clip.mov'' = (''clip'', ''.mov'')"
    "splitext ''match.mp4'' = (''match'', ''.mp4'')"
    by (simp_all add: splitext_def Let_def)
  have x: "ex_ok (extract_video_segment sample_files ''clip.mov'' ''clip_subset.mov''
              (Fin 0) (Fin 1)) = False"
    by (simp add: extract_video_segment_def extract_body_def VideoCapture_def isOpened_def
        sample_files_def)
  show ?thesis
    by (simp only: g s x) (simp add: echo_service_def)
qed

section \<open>Properties of the screens\<close>




















end
